theory Spec2Isabelle
  imports Complex_Main "HOL-Library.Word"
begin

unbundle bit_operations_syntax

section \<open>Constants of plasmasaver.c\<close>

text \<open>
  The unsigned constants are \<open>guint\<close> (32 bits). The cleaning radius is a \<open>double\<close> in the
  source whose value, 100, is integral. \<open>MAX_AGE\<close> (an \<open>unsigned char\<close>) and
  \<open>MIN_CHANGE_THRESHOLD\<close> (an \<open>int\<close>) are collected in a record, so that the handlers can be
  studied at other settings than the compiled ones; \<open>default_config\<close> holds the values of
  the source.
\<close>

definition PERIOD_MS :: "32 word" where
  "PERIOD_MS = 4000"

definition BAR_PIXEL_INCREMENT :: "32 word" where
  "BAR_PIXEL_INCREMENT = 10"

definition POINTER_CLEANING_RADIUS :: int where
  "POINTER_CLEANING_RADIUS = 100"

record config =
  MAX_AGE :: "8 word"
  MIN_CHANGE_THRESHOLD :: int

definition default_config :: config where
  "default_config = \<lparr>MAX_AGE = 150, MIN_CHANGE_THRESHOLD = 2\<rparr>"

section \<open>The session state\<close>

text \<open>
  An image surface is read and written a row at a time in the source (the row pointer
  advances by the stride, the offset within the row is the index), so a surface is a store
  indexed by the row and then by the offset within the row. Row padding is part of the
  store and is never touched.

  \<open>struct data_t\<close>: the C \<open>int\<close> fields are 32-bit words read with \<open>sint\<close>, the \<open>guint\<close>
  field \<open>bar_x\<close> is a 32-bit word read with \<open>uint\<close>. The window, root window and pattern
  handles are platform objects and carry no state of their own here. The field
  \<open>draw_timeout_ms\<close> records the interval with which the draw timer was registered last
  (the source keeps the identifier of that timer). The render-resident surface
  \<open>data->mask\<close> is the field \<open>mask_surface\<close>, an 8-bit alpha value per pixel.
\<close>

type_synonym 'a image = "nat \<Rightarrow> nat \<Rightarrow> 'a"

record data_t =
  initialized :: bool
  draw_timeout_ms :: "32 word"
  mask_surface :: "8 word image"
  mask_image :: "8 word image"
  pixel_ages :: "8 word image"
  captures :: "32 word \<Rightarrow> 32 word image"
  width :: "32 word"
  height :: "32 word"
  capture_index :: "32 word"
  bar_x :: "32 word"
  pointer_x :: "32 word"
  pointer_y :: "32 word"

datatype error = AssertionFailed | DivisionByZero

text \<open>\<open>struct data_t data = {0}\<close> in \<open>main\<close>; no surface exists yet.\<close>

definition data0 :: data_t where
  "data0 = \<lparr>initialized = False, draw_timeout_ms = 0,
     mask_surface = (\<lambda>_ _. 0), mask_image = (\<lambda>_ _. 0), pixel_ages = (\<lambda>_ _. 0),
     captures = (\<lambda>_ _ _. 0), width = 0, height = 0, capture_index = 0, bar_x = 0,
     pointer_x = 0, pointer_y = 0\<rparr>"

definition columns :: "data_t \<Rightarrow> nat" where
  "columns data = nat (sint (width data))"

definition rows :: "data_t \<Rightarrow> nat" where
  "rows data = nat (sint (height data))"

text \<open>
  Pixel \<open>x\<close> of a row of the 1-bit mask image is bit \<open>x % 8\<close> of byte \<open>x / 8\<close>, as the
  capture handler addresses it.
\<close>

definition a1_bit :: "(nat \<Rightarrow> 8 word) \<Rightarrow> nat \<Rightarrow> bool" where
  "a1_bit mrow x = bit (mrow (x div 8)) (x mod 8)"

definition a1_pixel :: "8 word image \<Rightarrow> bool image" where
  "a1_pixel m y x = a1_bit (m y) x"

definition masked :: "data_t \<Rightarrow> nat \<Rightarrow> nat \<Rightarrow> bool" where
  "masked data y x = a1_pixel (mask_image data) y x"

text \<open>The 1-bit image as a paint source: a set bit is full alpha, an unset bit is none.\<close>

definition a1_alpha :: "8 word image \<Rightarrow> 8 word image" where
  "a1_alpha m y x = (if a1_pixel m y x then 255 else 0)"

text \<open>Painting a source over a whole surface replaces the pixels of the surface.\<close>

definition paint :: "nat \<Rightarrow> nat \<Rightarrow> 'a image \<Rightarrow> 'a image \<Rightarrow> 'a image" where
  "paint w h src dst = (\<lambda>y x. if x < w \<and> y < h then src y x else dst y x)"

section \<open>on_draw_timer\<close>

definition on_draw_timer :: "data_t \<Rightarrow> error + bool \<times> data_t" where
  "on_draw_timer data =
     (if width data = 0 then Inl AssertionFailed
      else Inr (True, data\<lparr>bar_x := (bar_x data + BAR_PIXEL_INCREMENT) mod width data\<rparr>))"

section \<open>on_draw\<close>

text \<open>
  The arguments are the allocated width and height of the widget. Only the
  (re-)initialisation of the session is modelled; painting the frame onto the drawing
  context changes nothing in \<open>data_t\<close>. New image surfaces are zero-filled.
\<close>

definition on_draw :: "32 word \<Rightarrow> 32 word \<Rightarrow> data_t \<Rightarrow> error + bool \<times> data_t" where
  "on_draw w h data =
     (if w = 0 \<or> h = 0 then Inl AssertionFailed
      else if \<not> initialized data \<or> width data \<noteq> w \<or> height data \<noteq> h then
        (if initialized data \<and> width data = 0 then Inl DivisionByZero
         else Inr (True, data\<lparr>
           draw_timeout_ms := PERIOD_MS * BAR_PIXEL_INCREMENT div w,
           mask_surface := (\<lambda>_ _. 0),
           mask_image := (\<lambda>_ _. 0),
           pixel_ages := (\<lambda>_ _. 0),
           captures := (\<lambda>_ _ _. 0),
           bar_x := (if initialized data then bar_x data * w div width data else bar_x data),
           width := w,
           height := h,
           initialized := True\<rparr>))
      else Inr (True, data))"

section \<open>on_screen_capture_timer\<close>

text \<open>The loop over the three colour bytes of the two pixels; the fourth byte is not read.\<close>

fun channels_differ :: "config \<Rightarrow> nat \<Rightarrow> 32 word \<Rightarrow> 32 word \<Rightarrow> bool \<Rightarrow> bool" where
  "channels_differ cfg 0 current_pix last_pix different = different"
| "channels_differ cfg (Suc n) current_pix last_pix different =
     (let diff = uint (current_pix AND 0xFF) - uint (last_pix AND 0xFF)
      in channels_differ cfg n (drop_bit 8 current_pix) (drop_bit 8 last_pix)
           (if \<bar>diff\<bar> \<ge> MIN_CHANGE_THRESHOLD cfg then True else different))"

definition pixel_different :: "config \<Rightarrow> 32 word \<Rightarrow> 32 word \<Rightarrow> bool" where
  "pixel_different cfg current_pix last_pix =
     channels_differ cfg 3 current_pix last_pix False"

text \<open>Colour channel \<open>i\<close> of a pixel: byte \<open>i\<close> of the 32-bit pixel value.\<close>

definition channel :: "nat \<Rightarrow> 32 word \<Rightarrow> int" where
  "channel i p = uint (take_bit 8 (drop_bit (8 * i) p))"

text \<open>
  The body of the inner loop at column \<open>x\<close>, on the rows of the mask image, of the ages
  and of the two captures, with the flag \<open>mask_changed\<close>.
\<close>

definition diff_pixel ::
  "config \<Rightarrow> (nat \<Rightarrow> 32 word) \<Rightarrow> (nat \<Rightarrow> 32 word) \<Rightarrow> nat \<Rightarrow>
   (nat \<Rightarrow> 8 word) \<times> (nat \<Rightarrow> 8 word) \<times> bool \<Rightarrow> (nat \<Rightarrow> 8 word) \<times> (nat \<Rightarrow> 8 word) \<times> bool" where
  "diff_pixel cfg current_row last_row x = (\<lambda>(mrow, ages, mask_changed).
     let byte = x div 8;
         bitv = (push_bit (x mod 8) 1 :: 8 word)
     in if mrow byte AND bitv \<noteq> 0 then (mrow, ages, mask_changed)
        else
          let age = ages x
          in if \<not> pixel_different cfg (current_row x) (last_row x) then
               (let age = age + 1
                in if age \<ge> MAX_AGE cfg
                   then (mrow(byte := mrow byte OR bitv), ages(x := 0), True)
                   else (mrow, ages(x := age), mask_changed))
             else (mrow, ages(x := 0), mask_changed))"

definition diff_row ::
  "config \<Rightarrow> nat \<Rightarrow> (nat \<Rightarrow> 32 word) \<Rightarrow> (nat \<Rightarrow> 32 word) \<Rightarrow>
   (nat \<Rightarrow> 8 word) \<times> (nat \<Rightarrow> 8 word) \<times> bool \<Rightarrow> (nat \<Rightarrow> 8 word) \<times> (nat \<Rightarrow> 8 word) \<times> bool" where
  "diff_row cfg w current_row last_row = fold (diff_pixel cfg current_row last_row) [0..<w]"

definition diff_rows ::
  "config \<Rightarrow> nat \<Rightarrow> nat \<Rightarrow> 32 word image \<Rightarrow> 32 word image \<Rightarrow>
   8 word image \<times> 8 word image \<times> bool \<Rightarrow> 8 word image \<times> 8 word image \<times> bool" where
  "diff_rows cfg w h current_surface last_surface =
     fold (\<lambda>y (mimg, ages, mask_changed).
             case diff_row cfg w (current_surface y) (last_surface y) (mimg y, ages y, mask_changed) of
               (mrow, arow, mask_changed) \<Rightarrow> (mimg(y := mrow), ages(y := arow), mask_changed))
          [0..<h]"

text \<open>
  The argument \<open>screen\<close> is the content of the root window that the handler paints into
  the current capture surface. The previous capture is the other surface of the pair, a
  different object (\<open>1 - i\<close> is never \<open>i\<close>), so painting the current one leaves it as it
  was. The mask image is uploaded to the render-resident surface only when a bit was set.
\<close>

definition on_screen_capture_timer :: "config \<Rightarrow> 32 word image \<Rightarrow> data_t \<Rightarrow> bool \<times> data_t" where
  "on_screen_capture_timer cfg screen data =
     (if \<not> initialized data then (True, data)
      else
        let other_capture_index = 1 - capture_index data;
            current_surface = paint (columns data) (rows data) screen
                                (captures data (capture_index data));
            last_surface = captures data other_capture_index
        in case diff_rows cfg (columns data) (rows data) current_surface last_surface
                  (mask_image data, pixel_ages data, False) of
             (mimg, ages, mask_changed) \<Rightarrow>
               (True, data\<lparr>
                  capture_index := other_capture_index,
                  captures := (captures data)(capture_index data := current_surface),
                  mask_image := mimg,
                  pixel_ages := ages,
                  mask_surface :=
                    (if mask_changed
                     then paint (columns data) (rows data) (a1_alpha mimg) (mask_surface data)
                     else mask_surface data)\<rparr>))"

text \<open>
  What one pass of the loop body does to a pixel that it visits, as a function of the
  pixel's mask bit and age and of its two colours.
\<close>

definition diff_one :: "config \<Rightarrow> 32 word \<Rightarrow> 32 word \<Rightarrow> bool \<times> 8 word \<Rightarrow> bool \<times> 8 word" where
  "diff_one cfg current_pix last_pix = (\<lambda>(m, age).
     if m then (m, age)
     else if \<not> pixel_different cfg current_pix last_pix then
       (if age + 1 \<ge> MAX_AGE cfg then (True, 0) else (False, age + 1))
     else (False, 0))"

section \<open>clear_arc and on_mouse_poll_timer\<close>

text \<open>
  \<open>clear_arc\<close> fills the disc of radius \<open>POINTER_CLEANING_RADIUS\<close> about the pointer
  position with the clearing operator, clipped to the surface. The source leaves the
  anti-aliasing of the drawing context at its default, so the fill clears a pixel in
  proportion to the part of the pixel that the filled outline covers: the operator keeps
  \<open>dest \<times> (1 - coverage)\<close>.

  The rasteriser belongs to the graphics library. What it delivers for one fill, an 8-bit
  coverage for every pixel, is an input of the handler here, one coverage image for each
  of the three surfaces that the handler clears. The library fills a polygon that
  approximates the circle within its tolerance (a tenth of a pixel by default);
  \<open>EDGE_MARGIN\<close>, one pixel, bounds that deviation generously. A pixel whose square
  \<open>[x, x + 1] \<times> [y, y + 1]\<close> lies inside the circle by the margin is covered in full, a
  pixel whose square lies outside the circle by the margin is not covered, and only for
  the pixels between, those that the edge of the disc cuts or nearly cuts, the coverage is
  what the rasteriser reports.
\<close>

definition EDGE_MARGIN :: int where
  "EDGE_MARGIN = 1"

text \<open>
  The distances along one axis from the centre coordinate \<open>c\<close> to the farthest and to the
  nearest point of the interval \<open>[x, x + 1]\<close>.
\<close>

definition far_side :: "32 word \<Rightarrow> nat \<Rightarrow> int" where
  "far_side c x = max \<bar>int x - sint c\<bar> \<bar>int x + 1 - sint c\<bar>"

definition near_side :: "32 word \<Rightarrow> nat \<Rightarrow> int" where
  "near_side c x =
     (if sint c < int x then int x - sint c
      else if int x + 1 < sint c then sint c - (int x + 1)
      else 0)"

definition inside_arc :: "32 word \<Rightarrow> 32 word \<Rightarrow> nat \<Rightarrow> nat \<Rightarrow> bool" where
  "inside_arc px py y x \<longleftrightarrow>
     (far_side px x)\<^sup>2 + (far_side py y)\<^sup>2 \<le> (POINTER_CLEANING_RADIUS - EDGE_MARGIN)\<^sup>2"

definition outside_arc :: "32 word \<Rightarrow> 32 word \<Rightarrow> nat \<Rightarrow> nat \<Rightarrow> bool" where
  "outside_arc px py y x \<longleftrightarrow>
     (POINTER_CLEANING_RADIUS + EDGE_MARGIN)\<^sup>2 \<le> (near_side px x)\<^sup>2 + (near_side py y)\<^sup>2"

text \<open>
  The coverage of the pixel \<open>(x, y)\<close> of a surface of \<open>w\<close> by \<open>h\<close> pixels for the disc
  about \<open>(px, py)\<close>, given what the rasteriser reports.
\<close>

definition coverage ::
  "nat \<Rightarrow> nat \<Rightarrow> 32 word \<Rightarrow> 32 word \<Rightarrow> 8 word image \<Rightarrow> 8 word image" where
  "coverage w h px py reported y x =
     (if \<not> (x < w \<and> y < h) then 0
      else if inside_arc px py y x then 255
      else if outside_arc px py y x then 0
      else reported y x)"

text \<open>
  The clearing operator under a coverage \<open>c\<close>, on 8-bit alpha: \<open>dest \<times> (255 - c) / 255\<close>,
  rounded to the nearest value.
\<close>

definition dest_out :: "8 word \<Rightarrow> 8 word \<Rightarrow> 8 word" where
  "dest_out dest c = word_of_nat ((unat dest * (255 - unat c) + 127) div 255)"

text \<open>
  The source calls the one function \<open>clear_arc\<close> on surfaces of two kinds; there is one
  definition for each. On the 8-bit surfaces (the ages and the render-resident mask) every
  pixel is blended. On the 1-bit mask image a set bit reads as full alpha and the blended
  alpha is stored back as its top bit.
\<close>

definition clear_arc_a8 :: "data_t \<Rightarrow> 8 word image \<Rightarrow> 8 word image \<Rightarrow> 8 word image" where
  "clear_arc_a8 data reported surface =
     (\<lambda>y x. dest_out (surface y x)
        (coverage (columns data) (rows data) (pointer_x data) (pointer_y data) reported y x))"

definition clear_arc_a1 :: "data_t \<Rightarrow> 8 word image \<Rightarrow> 8 word image \<Rightarrow> 8 word image" where
  "clear_arc_a1 data reported surface =
     (\<lambda>y byte.
        fold (\<lambda>i v.
                if 128 \<le> dest_out (if bit v i then 255 else 0)
                     (coverage (columns data) (rows data) (pointer_x data) (pointer_y data)
                        reported y (8 * byte + i))
                then v else unset_bit i v)
             [0..<8] (surface y byte))"

text \<open>What the rasteriser reports for the three fills of one pointer poll.\<close>

record fills =
  fill_mask :: "8 word image"
  fill_mask_image :: "8 word image"
  fill_pixel_ages :: "8 word image"

text \<open>
  The arguments \<open>x\<close> and \<open>y\<close> are the pointer position that the handler queries, \<open>f\<close> is
  what the rasteriser reports for its fills.
\<close>

definition on_mouse_poll_timer ::
  "32 word \<Rightarrow> 32 word \<Rightarrow> fills \<Rightarrow> data_t \<Rightarrow> bool \<times> data_t" where
  "on_mouse_poll_timer x y f data =
     (if \<not> initialized data then (True, data)
      else if pointer_x data = x \<and> pointer_y data = y then (True, data)
      else
        let data = data\<lparr>pointer_x := x, pointer_y := y\<rparr>;
            data = data\<lparr>mask_surface := clear_arc_a8 data (fill_mask f) (mask_surface data)\<rparr>;
            data = data\<lparr>mask_image := clear_arc_a1 data (fill_mask_image f) (mask_image data)\<rparr>;
            data = data\<lparr>pixel_ages := clear_arc_a8 data (fill_pixel_ages f) (pixel_ages data)\<rparr>
        in (True, data))"

section \<open>The event loop\<close>

text \<open>
  The handlers run one at a time, in any order. A failed assertion ends the run.
\<close>

datatype event =
    Draw "32 word" "32 word"
  | DrawTimer
  | ScreenCapture "32 word image"
  | MousePoll "32 word" "32 word" fills

fun step :: "config \<Rightarrow> event \<Rightarrow> data_t \<Rightarrow> error + data_t" where
  "step cfg (Draw w h) data = map_sum id snd (on_draw w h data)"
| "step cfg DrawTimer data = map_sum id snd (on_draw_timer data)"
| "step cfg (ScreenCapture screen) data = Inr (snd (on_screen_capture_timer cfg screen data))"
| "step cfg (MousePoll x y f) data = Inr (snd (on_mouse_poll_timer x y f data))"

fun run :: "config \<Rightarrow> event list \<Rightarrow> data_t \<Rightarrow> error + data_t" where
  "run cfg [] data = Inr data"
| "run cfg (e # es) data =
     (case step cfg e data of Inl err \<Rightarrow> Inl err | Inr data' \<Rightarrow> run cfg es data')"

section \<open>Properties of the session state\<close>

text \<open>A masked pixel has age 0.\<close>

definition stale_inv :: "data_t \<Rightarrow> bool" where
  "stale_inv data \<longleftrightarrow>
     (\<forall>y<rows data. \<forall>x<columns data. masked data y x \<longrightarrow> pixel_ages data y x = 0)"

text \<open>No age has reached the maximum age.\<close>

definition ages_bounded :: "config \<Rightarrow> data_t \<Rightarrow> bool" where
  "ages_bounded cfg data \<longleftrightarrow>
     (\<forall>y<rows data. \<forall>x<columns data.
        pixel_ages data y x = 0 \<or> pixel_ages data y x < MAX_AGE cfg)"



text \<open>A screen of one colour.\<close>

definition uniform :: "32 word \<Rightarrow> 32 word image" where
  "uniform c y x = c"

text \<open>A rasteriser that reports the coverage \<open>c\<close> wherever it is asked.\<close>

definition uniform_fills :: "8 word \<Rightarrow> fills" where
  "uniform_fills c =
     \<lparr>fill_mask = (\<lambda>_ _. c), fill_mask_image = (\<lambda>_ _. c), fill_pixel_ages = (\<lambda>_ _. c)\<rparr>"

text \<open>
  A run of capture ticks, and what it does to one pixel: the pixel's mask bit and age are
  carried from tick to tick together with the colour that the previous capture had there.
\<close>

definition ticks :: "config \<Rightarrow> 32 word image list \<Rightarrow> data_t \<Rightarrow> data_t" where
  "ticks cfg screens data = fold (\<lambda>screen d. snd (on_screen_capture_timer cfg screen d)) screens data"

fun pixel_ticks :: "config \<Rightarrow> 32 word list \<Rightarrow> 32 word \<Rightarrow> bool \<times> 8 word \<Rightarrow> bool \<times> 8 word" where
  "pixel_ticks cfg [] last_pix st = st"
| "pixel_ticks cfg (c # cs) last_pix st = pixel_ticks cfg cs c (diff_one cfg c last_pix st)"

section \<open>The loop of the capture handler, pixel by pixel\<close>

lemma bit_or_exp: "n < 8 \<Longrightarrow> bit ((w :: 8 word) OR 2 ^ n) m \<longleftrightarrow> bit w m \<or> m = n"
  by (auto simp: bit_simps)

lemma same_byte_other_bit:
  "x' \<noteq> x \<Longrightarrow> x' div 8 = x div 8 \<Longrightarrow> x' mod 8 \<noteq> x mod (8::nat)"
  by (metis div_mult_mod_eq)

lemma diff_pixel_at:
  assumes "diff_pixel cfg cur lst x (mrow, ages, ch) = (mrow', ages', ch')"
  shows "(a1_bit mrow' x, ages' x) = diff_one cfg (cur x) (lst x) (a1_bit mrow x, ages x)"
  using assms
  by (auto simp: diff_pixel_def diff_one_def a1_bit_def Let_def and_exp_eq_0_iff_not_bit bit_or_exp
      split: if_splits)

lemma diff_pixel_other:
  assumes "diff_pixel cfg cur lst x (mrow, ages, ch) = (mrow', ages', ch')" "x' \<noteq> x"
  shows "a1_bit mrow' x' = a1_bit mrow x'" "ages' x' = ages x'"
  using assms
  by (auto simp: diff_pixel_def a1_bit_def Let_def and_exp_eq_0_iff_not_bit bit_or_exp
      same_byte_other_bit split: if_splits)

lemma diff_row_pixel:
  "diff_row cfg w cur lst (mrow, ages, ch) = (mrow', ages', ch') \<Longrightarrow>
   (a1_bit mrow' x, ages' x) =
     (if x < w then diff_one cfg (cur x) (lst x) (a1_bit mrow x, ages x)
      else (a1_bit mrow x, ages x))"
proof (induction w arbitrary: mrow' ages' ch')
  case 0
  then show ?case by (simp add: diff_row_def)
next
  case (Suc w)
  obtain m1 a1 c1 where mid: "diff_row cfg w cur lst (mrow, ages, ch) = (m1, a1, c1)"
    by (cases "diff_row cfg w cur lst (mrow, ages, ch)") auto
  have last_step: "diff_pixel cfg cur lst w (m1, a1, c1) = (mrow', ages', ch')"
    using Suc.prems mid by (simp add: diff_row_def)
  note IH = Suc.IH [OF mid]
  show ?case
  proof (cases "x = w")
    case True
    with IH have "(a1_bit m1 w, a1 w) = (a1_bit mrow w, ages w)" by simp
    with diff_pixel_at [OF last_step] True show ?thesis by simp
  next
    case False
    from diff_pixel_other [OF last_step False] IH False show ?thesis
      by (auto simp: less_Suc_eq)
  qed
qed

lemma diff_rows_pixel:
  "diff_rows cfg w h cur lst (mimg, ages, ch) = (mimg', ages', ch') \<Longrightarrow>
   (a1_pixel mimg' y x, ages' y x) =
     (if x < w \<and> y < h then diff_one cfg (cur y x) (lst y x) (a1_pixel mimg y x, ages y x)
      else (a1_pixel mimg y x, ages y x))"
proof (induction h arbitrary: mimg' ages' ch')
  case 0
  then show ?case by (simp add: diff_rows_def)
next
  case (Suc h)
  obtain m1 a1 c1 where mid: "diff_rows cfg w h cur lst (mimg, ages, ch) = (m1, a1, c1)"
    by (cases "diff_rows cfg w h cur lst (mimg, ages, ch)") auto
  obtain mr ar cr where row: "diff_row cfg w (cur h) (lst h) (m1 h, a1 h, c1) = (mr, ar, cr)"
    by (cases "diff_row cfg w (cur h) (lst h) (m1 h, a1 h, c1)") auto
  have res: "mimg' = m1(h := mr)" "ages' = a1(h := ar)"
    using Suc.prems mid row by (simp_all add: diff_rows_def)
  note IH = Suc.IH [OF mid]
  show ?case
  proof (cases "y = h")
    case True
    with IH have "(a1_pixel m1 h x, a1 h x) = (a1_pixel mimg h x, ages h x)" by simp
    with diff_row_pixel [OF row, of x] True res show ?thesis
      by (simp add: a1_pixel_def)
  next
    case False
    with IH res show ?thesis by (auto simp: less_Suc_eq a1_pixel_def)
  qed
qed

text \<open>The two capture buffers are different ones: \<open>1 - i\<close> is never \<open>i\<close>.\<close>

lemma one_minus_neq: "(1 :: 32 word) - c \<noteq> c"
proof
  assume "1 - c = c"
  then have "1 = c + c" by (simp add: algebra_simps)
  then have "1 = 2 * c" by simp
  then have "even (1 :: 32 word)" by (metis dvd_triv_left)
  then show False by simp
qed

lemma tick_pixel:
  assumes "initialized data"
  shows "(masked (snd (on_screen_capture_timer cfg screen data)) y x,
          pixel_ages (snd (on_screen_capture_timer cfg screen data)) y x) =
     (if x < columns data \<and> y < rows data
      then diff_one cfg (screen y x) (captures data (1 - capture_index data) y x)
             (masked data y x, pixel_ages data y x)
      else (masked data y x, pixel_ages data y x))"
proof -
  let ?cur = "paint (columns data) (rows data) screen (captures data (capture_index data))"
  let ?lst = "captures data (1 - capture_index data)"
  obtain m1 a1 c1 where
    d: "diff_rows cfg (columns data) (rows data) ?cur ?lst (mask_image data, pixel_ages data, False)
          = (m1, a1, c1)"
    by (cases "diff_rows cfg (columns data) (rows data) ?cur ?lst
         (mask_image data, pixel_ages data, False)") auto
  have "masked (snd (on_screen_capture_timer cfg screen data)) y x = a1_pixel m1 y x"
    "pixel_ages (snd (on_screen_capture_timer cfg screen data)) y x = a1 y x"
    using assms d by (simp_all add: on_screen_capture_timer_def Let_def masked_def)
  with diff_rows_pixel [OF d, of y x] show ?thesis
    by (simp add: masked_def paint_def)
qed

section \<open>Classification, bar motion, early returns\<close>

lemma ex_less_3: "(\<exists>i<3::nat. P i) \<longleftrightarrow> P 0 \<or> P 1 \<or> P 2"
proof
  assume "\<exists>i<3. P i"
  then obtain i where "i < 3" "P i" by blast
  then have "i = 0 \<or> i = 1 \<or> i = 2" by arith
  with \<open>P i\<close> show "P 0 \<or> P 1 \<or> P 2" by blast
next
  assume "P 0 \<or> P 1 \<or> P 2"
  then show "\<exists>i<3. P i"
  proof (elim disjE)
    assume "P 0" then show ?thesis by (intro exI [of _ 0]) simp
  next
    assume "P 1" then show ?thesis by (intro exI [of _ 1]) simp
  next
    assume "P 2" then show ?thesis by (intro exI [of _ 2]) simp
  qed
qed

lemma all_less_3: "(\<forall>i<3::nat. P i) \<longleftrightarrow> P 0 \<and> P 1 \<and> P 2"
  using ex_less_3 [of "\<lambda>i. \<not> P i"] by blast

lemma and_FF: "(w :: 32 word) AND 0xFF = take_bit 8 w"
proof -
  have "(0xFF :: 32 word) = mask 8" by (simp add: mask_eq_exp_minus_1)
  then show ?thesis by (simp add: take_bit_eq_mask)
qed

lemma pixel_different_channels:
  "pixel_different cfg c l \<longleftrightarrow>
     (\<exists>i<3. MIN_CHANGE_THRESHOLD cfg \<le> \<bar>channel i c - channel i l\<bar>)"
  unfolding pixel_different_def ex_less_3 channel_def
  by (simp add: numeral_3_eq_3 Let_def and_FF)

text \<open>
  Claim C3. The capture handler classifies a pixel as changed exactly when, for one of the
  three colour channels, the absolute difference between the current and the previous
  capture is at least the change threshold. When every channel differs by exactly the
  threshold minus one the pixel is not changed; when one channel differs by exactly the
  threshold it is.
\<close>

theorem changed_iff_threshold:
  "(pixel_different cfg c l \<longleftrightarrow>
      (\<exists>i<3. MIN_CHANGE_THRESHOLD cfg \<le> \<bar>channel i c - channel i l\<bar>)) \<and>
   ((\<forall>i<3. \<bar>channel i c - channel i l\<bar> = MIN_CHANGE_THRESHOLD cfg - 1)
      \<longrightarrow> \<not> pixel_different cfg c l) \<and>
   ((\<exists>i<3. \<bar>channel i c - channel i l\<bar> = MIN_CHANGE_THRESHOLD cfg)
      \<longrightarrow> pixel_different cfg c l)"
  unfolding pixel_different_channels by auto

lemma channel_simps:
  "channel 0 p = uint (take_bit 8 p)"
  "channel 1 p = uint (take_bit 8 (drop_bit 8 p))"
  "channel (Suc 0) p = uint (take_bit 8 (drop_bit 8 p))"
  "channel 2 p = uint (take_bit 8 (drop_bit 16 p))"
  by (simp_all add: channel_def)

theorem changed_iff_threshold_witness:
  "\<bar>channel 0 0x00646464 - channel 0 0xFF656365\<bar> = MIN_CHANGE_THRESHOLD default_config - 1 \<and>
   \<bar>channel 1 0x00646464 - channel 1 0xFF656365\<bar> = MIN_CHANGE_THRESHOLD default_config - 1 \<and>
   \<bar>channel 2 0x00646464 - channel 2 0xFF656365\<bar> = MIN_CHANGE_THRESHOLD default_config - 1 \<and>
   \<not> pixel_different default_config 0x00646464 0xFF656365 \<and>
   \<bar>channel 1 0x00646464 - channel 1 0x00646264\<bar> = MIN_CHANGE_THRESHOLD default_config \<and>
   pixel_different default_config 0x00646464 0x00646264"
proof -
  have a: "\<forall>i<3. \<bar>channel i 0x00646464 - channel i 0xFF656365\<bar> = MIN_CHANGE_THRESHOLD default_config - 1"
    unfolding all_less_3 by (simp add: channel_simps default_config_def)
  have b: "\<exists>i<3. \<bar>channel i 0x00646464 - channel i 0x00646264\<bar> = MIN_CHANGE_THRESHOLD default_config"
    unfolding ex_less_3 by (simp add: channel_simps default_config_def)
  have c: "\<not> pixel_different default_config 0x00646464 0xFF656365"
    using a changed_iff_threshold [of default_config "0x00646464" "0xFF656365"] by blast
  have d: "pixel_different default_config 0x00646464 0x00646264"
    using b changed_iff_threshold [of default_config "0x00646464" "0x00646264"] by blast
  from c d show ?thesis
    by (simp add: channel_simps default_config_def)
qed

lemma sint_nonneg_uint:
  assumes "0 \<le> sint (w :: 32 word)"
  shows "uint w = sint w"
proof -
  have "sint w < 2 ^ 32" using sint_lt [of w] by simp
  with assms have "take_bit 32 (sint w) = sint w" by (simp add: take_bit_int_eq_self)
  then show ?thesis by (simp add: uint_sint)
qed

text \<open>
  Claim C7. When the bar position is in \<open>[0, width)\<close>, the animation tick succeeds and
  the new bar position is the old one plus the increment, modulo the width; it is not
  negative and it is less than the width. Nothing else in the session changes.
\<close>

theorem bar_wraparound:
  assumes "uint (bar_x data) < sint (width data)"
  shows "\<exists>data'. on_draw_timer data = Inr (True, data') \<and>
           data' = data\<lparr>bar_x := bar_x data'\<rparr> \<and>
           uint (bar_x data') =
             (uint (bar_x data) + uint BAR_PIXEL_INCREMENT) mod sint (width data) \<and>
           0 \<le> uint (bar_x data') \<and> uint (bar_x data') < sint (width data)"
proof -
  have pos: "0 < sint (width data)"
    using assms uint_ge_0 [of "bar_x data"] by linarith
  then have w: "uint (width data) = sint (width data)"
    by (simp add: sint_nonneg_uint)
  from pos have nz: "width data \<noteq> 0" by auto
  have "sint (width data) < 2 ^ 31"
    using sint_lt [of "width data"] by simp
  with assms have small: "uint (bar_x data) + 10 < 2 ^ 32" by simp
  have "uint (bar_x data + 10) = (uint (bar_x data) + 10) mod 2 ^ 32"
    by (simp add: uint_word_ariths)
  with small have sum: "uint (bar_x data + 10) = uint (bar_x data) + 10"
    by (simp add: uint_ge_0)
  have new: "uint ((bar_x data + 10) mod width data) = (uint (bar_x data) + 10) mod sint (width data)"
    by (simp add: uint_mod sum w)
  show ?thesis
    using nz new pos
    by (simp add: on_draw_timer_def BAR_PIXEL_INCREMENT_def)
qed

theorem bar_wraparound_witness:
  "uint (bar_x (data0\<lparr>width := 25, bar_x := 20\<rparr>)) < sint (width (data0\<lparr>width := 25, bar_x := 20\<rparr>)) \<and>
   on_draw_timer (data0\<lparr>width := 25, bar_x := 20\<rparr>) = Inr (True, data0\<lparr>width := 25, bar_x := 5\<rparr>)"
  using bar_wraparound [of "data0\<lparr>width := 25, bar_x := 20\<rparr>"]
  by (simp add: on_draw_timer_def BAR_PIXEL_INCREMENT_def data0_def)

text \<open>
  Claim C10. Before the session is initialised, the capture handler and the pointer-poll
  handler return at once: the session state is returned as it was, whatever the screen
  content, the pointer position or the rasteriser, and the handler answers \<open>TRUE\<close>, which keeps its
  timer.
\<close>

theorem uninitialized_ticks_return:
  assumes "\<not> initialized data"
  shows "on_screen_capture_timer cfg screen data = (True, data) \<and>
         on_mouse_poll_timer x y f data = (True, data)"
  using assms by (simp add: on_screen_capture_timer_def on_mouse_poll_timer_def)

theorem uninitialized_ticks_return_witness:
  "\<not> initialized data0 \<and>
   on_screen_capture_timer default_config (\<lambda>_ _. 0x00FFFFFF) data0 = (True, data0) \<and>
   on_mouse_poll_timer 50 5 (uniform_fills 128) data0 = (True, data0)"
  using uninitialized_ticks_return [of data0 default_config "\<lambda>_ _. 0x00FFFFFF" 50 5
      "uniform_fills 128"]
  by (simp add: data0_def)

section \<open>Clearing around the pointer\<close>

lemma unat_dest_out:
  "unat (dest_out a c) = (unat a * (255 - unat c) + 127) div 255"
proof -
  have "unat a < 256" using unsigned_less [of a] by simp
  then have "unat a * (255 - unat c) \<le> 255 * 255"
    by (intro mult_mono) simp_all
  then have "(unat a * (255 - unat c) + 127) div 255 < 256" by simp
  then show ?thesis
    by (simp add: dest_out_def unat_of_nat take_bit_nat_eq_self)
qed

lemma dest_out_le: "dest_out a c \<le> a"
proof -
  have "unat a * (255 - unat c) \<le> unat a * 255" by simp
  then have "(unat a * (255 - unat c) + 127) div 255 \<le> (unat a * 255 + 127) div 255"
    by (intro div_le_mono) simp
  also have "\<dots> = unat a" by simp
  finally show ?thesis by (simp add: word_le_nat_alt unat_dest_out)
qed

lemma dest_out_zero [simp]: "dest_out 0 c = 0"
  using dest_out_le [of 0 c] by simp

lemma dest_out_none [simp]: "dest_out a 0 = a"
  by (rule word_unat_eq_iff [THEN iffD2]) (simp add: unat_dest_out)

lemma dest_out_full [simp]: "dest_out a 255 = 0"
  by (rule word_unat_eq_iff [THEN iffD2]) (simp add: unat_dest_out)

lemma dest_out_opaque: "128 \<le> dest_out 255 c \<longleftrightarrow> c < 128"
proof -
  have "unat c < 256" using unsigned_less [of c] by simp
  then have "(255 * (255 - unat c) + 127) div 255 = 255 - unat c" by simp
  then have "unat (dest_out 255 c) = 255 - unat c" by (simp add: unat_dest_out)
  then show ?thesis by (auto simp: word_le_nat_alt word_less_nat_alt)
qed





lemma bit_fold_clear:
  "bit (fold (\<lambda>i v. if 128 \<le> dest_out (if bit v i then 255 else 0) (cv i) then v
                      else unset_bit i v) is (v :: 8 word)) j \<longleftrightarrow>
     bit v j \<and> \<not> (j \<in> set is \<and> 128 \<le> cv j)"
proof (induction "is" arbitrary: v)
  case Nil
  then show ?case by simp
next
  case (Cons i "is")
  have "bit (if 128 \<le> dest_out (if bit v i then 255 else 0) (cv i) then v else unset_bit i v) j
      \<longleftrightarrow> bit v j \<and> \<not> (j = i \<and> 128 \<le> cv i)"
    by (auto simp: bit_simps dest_out_opaque)
  with Cons.IH show ?case by auto
qed

lemma bit_clear_arc_a1:
  "bit (clear_arc_a1 data r m y b) i \<longleftrightarrow>
     bit (m y b) i \<and>
     coverage (columns data) (rows data) (pointer_x data) (pointer_y data) r y (8 * b + i) < 128"
  using bit_imp_le_length [of "m y b" i]
  by (auto simp: clear_arc_a1_def bit_fold_clear)

lemma a1_pixel_clear_arc_a1:
  "a1_pixel (clear_arc_a1 data r m) y x \<longleftrightarrow>
     a1_pixel m y x \<and>
     coverage (columns data) (rows data) (pointer_x data) (pointer_y data) r y x < 128"
  by (simp add: a1_pixel_def a1_bit_def bit_clear_arc_a1)

text \<open>The state after a poll that moved the pointer.\<close>

lemma poll_moved:
  fixes f :: fills
  assumes "initialized data" "pointer_x data \<noteq> px \<or> pointer_y data \<noteq> py"
  defines "d \<equiv> snd (on_mouse_poll_timer px py f data)"
  shows "pointer_x d = px" "pointer_y d = py" "width d = width data" "height d = height data"
    "initialized d" "capture_index d = capture_index data" "captures d = captures data"
    "bar_x d = bar_x data"
    "pixel_ages d y x =
       dest_out (pixel_ages data y x)
         (coverage (columns data) (rows data) px py (fill_pixel_ages f) y x)"
    "masked d y x \<longleftrightarrow> masked data y x \<and>
       coverage (columns data) (rows data) px py (fill_mask_image f) y x < 128"
    "mask_surface d y x =
       dest_out (mask_surface data y x)
         (coverage (columns data) (rows data) px py (fill_mask f) y x)"
  using assms(1,2) unfolding d_def
  by (auto simp: on_mouse_poll_timer_def Let_def columns_def rows_def masked_def
      a1_pixel_clear_arc_a1 clear_arc_a8_def)

lemma poll_still:
  assumes "\<not> initialized data \<or> (pointer_x data = px \<and> pointer_y data = py)"
  shows "snd (on_mouse_poll_timer px py f data) = data"
  using assms by (auto simp: on_mouse_poll_timer_def)


section \<open>The handlers, pixel by pixel\<close>

lemma tick_fields:
  fixes cfg :: config and screen :: "32 word image"
  assumes "initialized data"
  defines "d \<equiv> snd (on_screen_capture_timer cfg screen data)"
  shows "initialized d" "width d = width data" "height d = height data"
    "pointer_x d = pointer_x data" "pointer_y d = pointer_y data" "bar_x d = bar_x data"
    "capture_index d = 1 - capture_index data"
    "captures d = (captures data)(capture_index data :=
       paint (columns data) (rows data) screen (captures data (capture_index data)))"
  using assms(1) unfolding d_def
  by (simp_all add: on_screen_capture_timer_def Let_def split: prod.splits)

lemma tick_uninitialized: "\<not> initialized data \<Longrightarrow> snd (on_screen_capture_timer cfg screen data) = data"
  by (simp add: on_screen_capture_timer_def)

lemma tick_dims:
  "columns (snd (on_screen_capture_timer cfg screen data)) = columns data"
  "rows (snd (on_screen_capture_timer cfg screen data)) = rows data"
  "initialized (snd (on_screen_capture_timer cfg screen data)) = initialized data"
  "width (snd (on_screen_capture_timer cfg screen data)) = width data"
  "height (snd (on_screen_capture_timer cfg screen data)) = height data"
  by (cases "initialized data"; simp add: tick_fields tick_uninitialized columns_def rows_def)+

lemma poll_dims:
  "columns (snd (on_mouse_poll_timer px py f data)) = columns data"
  "rows (snd (on_mouse_poll_timer px py f data)) = rows data"
  "initialized (snd (on_mouse_poll_timer px py f data)) = initialized data"
  "width (snd (on_mouse_poll_timer px py f data)) = width data"
  "height (snd (on_mouse_poll_timer px py f data)) = height data"
  by (simp_all add: on_mouse_poll_timer_def Let_def columns_def rows_def)

lemma tick_masked_age:
  "masked (snd (on_screen_capture_timer cfg screen data)) y x =
     (if initialized data \<and> x < columns data \<and> y < rows data
      then fst (diff_one cfg (screen y x) (captures data (1 - capture_index data) y x)
             (masked data y x, pixel_ages data y x))
      else masked data y x)"
  "pixel_ages (snd (on_screen_capture_timer cfg screen data)) y x =
     (if initialized data \<and> x < columns data \<and> y < rows data
      then snd (diff_one cfg (screen y x) (captures data (1 - capture_index data) y x)
             (masked data y x, pixel_ages data y x))
      else pixel_ages data y x)"
proof -
  show "masked (snd (on_screen_capture_timer cfg screen data)) y x =
     (if initialized data \<and> x < columns data \<and> y < rows data
      then fst (diff_one cfg (screen y x) (captures data (1 - capture_index data) y x)
             (masked data y x, pixel_ages data y x))
      else masked data y x)"
  proof (cases "initialized data")
    case True
    from tick_pixel [OF True, of cfg screen y x] show ?thesis
      by (metis (no_types, lifting) True fst_conv)
  next
    case False
    then show ?thesis by (simp add: tick_uninitialized)
  qed
  show "pixel_ages (snd (on_screen_capture_timer cfg screen data)) y x =
     (if initialized data \<and> x < columns data \<and> y < rows data
      then snd (diff_one cfg (screen y x) (captures data (1 - capture_index data) y x)
             (masked data y x, pixel_ages data y x))
      else pixel_ages data y x)"
  proof (cases "initialized data")
    case True
    from tick_pixel [OF True, of cfg screen y x] show ?thesis
      by (metis (no_types, lifting) True snd_conv)
  next
    case False
    then show ?thesis by (simp add: tick_uninitialized)
  qed
qed

lemma poll_masked_age:
  "masked (snd (on_mouse_poll_timer px py f data)) y x \<longleftrightarrow>
     masked data y x \<and>
     \<not> (initialized data \<and> (pointer_x data \<noteq> px \<or> pointer_y data \<noteq> py) \<and>
        128 \<le> coverage (columns data) (rows data) px py (fill_mask_image f) y x)"
  "pixel_ages (snd (on_mouse_poll_timer px py f data)) y x =
     (if initialized data \<and> (pointer_x data \<noteq> px \<or> pointer_y data \<noteq> py)
      then dest_out (pixel_ages data y x)
             (coverage (columns data) (rows data) px py (fill_pixel_ages f) y x)
      else pixel_ages data y x)"
  "mask_surface (snd (on_mouse_poll_timer px py f data)) y x =
     (if initialized data \<and> (pointer_x data \<noteq> px \<or> pointer_y data \<noteq> py)
      then dest_out (mask_surface data y x)
             (coverage (columns data) (rows data) px py (fill_mask f) y x)
      else mask_surface data y x)"
  by (cases "initialized data \<and> (pointer_x data \<noteq> px \<or> pointer_y data \<noteq> py)";
      auto simp: poll_moved poll_still)+

lemma stale_inv_tick: "stale_inv data \<Longrightarrow> stale_inv (snd (on_screen_capture_timer cfg screen data))"
  by (auto simp: stale_inv_def tick_dims tick_masked_age diff_one_def split: if_splits)

lemma stale_inv_poll: "stale_inv data \<Longrightarrow> stale_inv (snd (on_mouse_poll_timer px py f data))"
  by (auto simp: stale_inv_def poll_dims poll_masked_age)

lemma stale_inv_draw: "stale_inv data \<Longrightarrow> on_draw w h data = Inr (b, d) \<Longrightarrow> stale_inv d"
  by (auto simp: on_draw_def stale_inv_def columns_def rows_def masked_def split: if_splits)

lemma stale_inv_draw_timer: "stale_inv data \<Longrightarrow> on_draw_timer data = Inr (b, d) \<Longrightarrow> stale_inv d"
  by (auto simp: on_draw_timer_def stale_inv_def columns_def rows_def masked_def split: if_splits)

lemma stale_inv_step_aux: "stale_inv data \<Longrightarrow> step cfg e data = Inr data' \<Longrightarrow> stale_inv data'"
proof (cases e)
  case (Draw w h)
  assume "stale_inv data" "step cfg e data = Inr data'"
  with Draw show ?thesis
    by (cases "on_draw w h data") (auto dest: stale_inv_draw)
next
  case DrawTimer
  assume "stale_inv data" "step cfg e data = Inr data'"
  with DrawTimer show ?thesis
    by (cases "on_draw_timer data") (auto dest: stale_inv_draw_timer)
next
  case (ScreenCapture screen)
  assume "stale_inv data" "step cfg e data = Inr data'"
  with ScreenCapture show ?thesis by (auto simp: stale_inv_tick)
next
  case (MousePoll px py f)
  assume "stale_inv data" "step cfg e data = Inr data'"
  with MousePoll show ?thesis by (auto simp: stale_inv_poll)
qed

lemma stale_inv_run: "stale_inv data \<Longrightarrow> run cfg es data = Inr data' \<Longrightarrow> stale_inv data'"
proof (induction es arbitrary: data)
  case Nil
  then show ?case by simp
next
  case (Cons e es)
  then show ?case
    by (cases "step cfg e data") (auto dest: stale_inv_step_aux)
qed

lemma stale_inv_data0: "stale_inv data0"
  by (simp add: stale_inv_def data0_def rows_def)

section \<open>Ages stay below the maximum age\<close>

lemma ages_bounded_tick:
  "ages_bounded cfg data \<Longrightarrow> ages_bounded cfg (snd (on_screen_capture_timer cfg screen data))"
  by (auto simp: ages_bounded_def tick_dims tick_masked_age diff_one_def split: if_splits)

lemma ages_bounded_poll:
  assumes "ages_bounded cfg data"
  shows "ages_bounded cfg (snd (on_mouse_poll_timer px py f data))"
proof -
  have "dest_out a c = 0 \<or> dest_out a c < MAX_AGE cfg" if "a = 0 \<or> a < MAX_AGE cfg" for a c
    using that dest_out_le [of a c] by auto
  with assms show ?thesis
    by (auto simp: ages_bounded_def poll_dims poll_masked_age)
qed

lemma ages_bounded_draw:
  "ages_bounded cfg data \<Longrightarrow> on_draw w h data = Inr (b, d) \<Longrightarrow> ages_bounded cfg d"
  by (auto simp: on_draw_def ages_bounded_def columns_def rows_def split: if_splits)

lemma ages_bounded_bar_x: "ages_bounded cfg (data\<lparr>bar_x := v\<rparr>) = ages_bounded cfg data"
  by (simp add: ages_bounded_def columns_def rows_def)

lemma ages_bounded_draw_timer:
  "ages_bounded cfg data \<Longrightarrow> on_draw_timer data = Inr (b, d) \<Longrightarrow> ages_bounded cfg d"
  by (auto simp: on_draw_timer_def ages_bounded_bar_x split: if_splits)

lemma ages_bounded_step:
  assumes "ages_bounded cfg data" "step cfg e data = Inr data'"
  shows "ages_bounded cfg data'"
proof (cases e)
  case (Draw w h)
  with assms show ?thesis
    by (cases "on_draw w h data") (auto dest: ages_bounded_draw)
next
  case DrawTimer
  with assms show ?thesis
    by (cases "on_draw_timer data") (auto dest: ages_bounded_draw_timer)
next
  case (ScreenCapture screen)
  with assms show ?thesis by (auto simp: ages_bounded_tick)
next
  case (MousePoll px py f)
  with assms show ?thesis by (auto simp: ages_bounded_poll)
qed

lemma ages_bounded_run:
  "ages_bounded cfg data \<Longrightarrow> run cfg es data = Inr data' \<Longrightarrow> ages_bounded cfg data'"
proof (induction es arbitrary: data)
  case Nil
  then show ?case by simp
next
  case (Cons e es)
  then show ?case
    by (cases "step cfg e data") (auto dest: ages_bounded_step)
qed

lemma ages_bounded_data0: "ages_bounded cfg data0"
  by (simp add: ages_bounded_def data0_def rows_def)

lemma unat_age_succ:
  assumes "(a :: 8 word) = 0 \<or> a < m"
  shows "unat (a + 1) = unat a + 1"
proof -
  have "unat m < 256" using unsigned_less [of m] by simp
  with assms have "unat a + unat (1 :: 8 word) < 2 ^ LENGTH(8)"
    by (auto simp: word_less_nat_alt)
  then have "unat (a + 1) = unat a + unat (1 :: 8 word)"
    by (simp only: unat_add_lem)
  then show ?thesis by simp
qed

lemma run_draw_8_1:
  "run cfg [Draw 8 1] data0 =
     Inr (data0\<lparr>draw_timeout_ms := 5000, width := 8, height := 1, initialized := True\<rparr>)"
  by (simp add: on_draw_def data0_def PERIOD_MS_def BAR_PIXEL_INCREMENT_def)

section \<open>Aging, promotion and reset\<close>

text \<open>
  Claim C1. In every state that the program reaches, on a capture tick a pixel of the
  surface that is not masked and is classified unchanged has its age incremented by
  exactly one (the 8-bit counter does not wrap), and when the incremented age reaches
  \<open>MAX_AGE\<close> the same tick sets the pixel's mask bit and stores age 0; otherwise the
  incremented age is stored and the pixel stays unmasked.
\<close>

theorem unchanged_pixel_ages:
  assumes "run cfg es data0 = Inr data"
    and "initialized data" and "x < columns data" and "y < rows data"
    and "\<not> masked data y x"
    and "\<not> pixel_different cfg (screen y x) (captures data (1 - capture_index data) y x)"
  shows "if unat (MAX_AGE cfg) \<le> unat (pixel_ages data y x) + 1
         then masked (snd (on_screen_capture_timer cfg screen data)) y x \<and>
              pixel_ages (snd (on_screen_capture_timer cfg screen data)) y x = 0
         else \<not> masked (snd (on_screen_capture_timer cfg screen data)) y x \<and>
              unat (pixel_ages (snd (on_screen_capture_timer cfg screen data)) y x) =
                unat (pixel_ages data y x) + 1"
proof -
  from ages_bounded_run [OF ages_bounded_data0 assms(1)] assms(3,4)
  have "pixel_ages data y x = 0 \<or> pixel_ages data y x < MAX_AGE cfg"
    by (simp add: ages_bounded_def)
  then have succ: "unat (pixel_ages data y x + 1) = unat (pixel_ages data y x) + 1"
    by (rule unat_age_succ)
  have le: "MAX_AGE cfg \<le> pixel_ages data y x + 1 \<longleftrightarrow>
      unat (MAX_AGE cfg) \<le> unat (pixel_ages data y x) + 1"
    by (simp add: word_le_nat_alt succ)
  show ?thesis
    using assms(2-6) succ le by (simp add: tick_masked_age diff_one_def)
qed

theorem unchanged_pixel_ages_witness:
  "run default_config [Draw 8 1] data0 =
     Inr (data0\<lparr>draw_timeout_ms := 5000, width := 8, height := 1, initialized := True\<rparr>) \<and>
   \<not> masked (snd (on_screen_capture_timer default_config (uniform 0x010101)
        (data0\<lparr>draw_timeout_ms := 5000, width := 8, height := 1, initialized := True\<rparr>))) 0 3 \<and>
   unat (pixel_ages (snd (on_screen_capture_timer default_config (uniform 0x010101)
        (data0\<lparr>draw_timeout_ms := 5000, width := 8, height := 1, initialized := True\<rparr>))) 0 3) = 1 \<and>
   masked (snd (on_screen_capture_timer \<lparr>MAX_AGE = 1, MIN_CHANGE_THRESHOLD = 2\<rparr> (uniform 0x010101)
        (data0\<lparr>draw_timeout_ms := 5000, width := 8, height := 1, initialized := True\<rparr>))) 0 3 \<and>
   pixel_ages (snd (on_screen_capture_timer \<lparr>MAX_AGE = 1, MIN_CHANGE_THRESHOLD = 2\<rparr> (uniform 0x010101)
        (data0\<lparr>draw_timeout_ms := 5000, width := 8, height := 1, initialized := True\<rparr>))) 0 3 = 0"
proof -
  let ?D = "data0\<lparr>draw_timeout_ms := 5000, width := 8, height := 1, initialized := True\<rparr>"
  have i: "initialized ?D" by simp
  have c: "3 < columns ?D" by (simp add: columns_def)
  have r: "0 < rows ?D" by (simp add: rows_def)
  have m: "\<not> masked ?D 0 3" by (simp add: masked_def a1_pixel_def a1_bit_def data0_def)
  have a: "pixel_ages ?D 0 3 = 0" by (simp add: data0_def)
  have u: "\<not> pixel_different cfg (uniform 0x010101 0 3) (captures ?D (1 - capture_index ?D) 0 3)"
    if "MIN_CHANGE_THRESHOLD cfg = 2" for cfg
    using that by (simp add: pixel_different_channels ex_less_3 channel_simps uniform_def data0_def)
  have u1: "\<not> pixel_different default_config (uniform 0x010101 0 3)
      (captures ?D (1 - capture_index ?D) 0 3)"
    by (rule u) (simp add: default_config_def)
  have u2: "\<not> pixel_different \<lparr>MAX_AGE = 1, MIN_CHANGE_THRESHOLD = 2\<rparr> (uniform 0x010101 0 3)
      (captures ?D (1 - capture_index ?D) 0 3)"
    by (rule u) simp
  from unchanged_pixel_ages [where screen = "uniform 0x010101" and x = 3 and y = 0,
        OF run_draw_8_1 i c r m u1]
    unchanged_pixel_ages [where screen = "uniform 0x010101" and x = 3 and y = 0,
        OF run_draw_8_1 i c r m u2]
    run_draw_8_1 [of default_config] a
  show ?thesis by (simp add: default_config_def)
qed

text \<open>
  Claim C4. In every state that the program reaches, a pixel of the surface for which
  some colour channel differs between the new capture and the previous one by at least
  the change threshold has age 0 after the capture tick, whatever its age was.
\<close>

theorem changed_pixel_age_zero:
  assumes "run cfg es data0 = Inr data"
    and "initialized data" and "x < columns data" and "y < rows data"
    and "\<exists>i<3. MIN_CHANGE_THRESHOLD cfg \<le>
           \<bar>channel i (screen y x) - channel i (captures data (1 - capture_index data) y x)\<bar>"
  shows "pixel_ages (snd (on_screen_capture_timer cfg screen data)) y x = 0"
proof -
  from stale_inv_run [OF stale_inv_data0 assms(1)] assms(3,4)
  have "masked data y x \<longrightarrow> pixel_ages data y x = 0"
    by (simp add: stale_inv_def)
  moreover from assms(5)
  have "pixel_different cfg (screen y x) (captures data (1 - capture_index data) y x)"
    by (simp add: pixel_different_channels)
  ultimately show ?thesis
    using assms(2-4) by (auto simp: tick_masked_age diff_one_def)
qed

theorem changed_pixel_age_zero_witness:
  "pixel_ages (snd (on_screen_capture_timer default_config (uniform 0x010101)
      (data0\<lparr>draw_timeout_ms := 5000, width := 8, height := 1, initialized := True\<rparr>))) 0 3 = 1 \<and>
   pixel_ages (snd (on_screen_capture_timer default_config (uniform 0x010601)
     (snd (on_screen_capture_timer default_config (uniform 0x010101)
      (data0\<lparr>draw_timeout_ms := 5000, width := 8, height := 1, initialized := True\<rparr>))))) 0 3 = 0"
proof -
  let ?D = "data0\<lparr>draw_timeout_ms := 5000, width := 8, height := 1, initialized := True\<rparr>"
  let ?F = "snd (on_screen_capture_timer default_config (uniform 0x010101) ?D)"
  have run: "run default_config [Draw 8 1, ScreenCapture (uniform 0x010101)] data0 = Inr ?F"
    by (simp add: on_draw_def data0_def PERIOD_MS_def BAR_PIXEL_INCREMENT_def)
  have i: "initialized ?F" by (simp add: tick_dims)
  have c: "3 < columns ?F" by (simp add: tick_dims columns_def)
  have r: "0 < rows ?F" by (simp add: tick_dims rows_def)
  have "captures ?F (1 - capture_index ?F) 0 3 = 0x010101"
    by (simp add: tick_fields paint_def uniform_def columns_def rows_def)
  then have h: "\<exists>i<3. MIN_CHANGE_THRESHOLD default_config \<le>
      \<bar>channel i (uniform 0x010601 0 3) - channel i (captures ?F (1 - capture_index ?F) 0 3)\<bar>"
    by (simp add: ex_less_3 channel_simps uniform_def default_config_def)
  have before: "pixel_ages ?F 0 3 = 1"
    by (simp add: tick_masked_age diff_one_def columns_def rows_def masked_def a1_pixel_def
        a1_bit_def pixel_different_channels ex_less_3 channel_simps uniform_def
        default_config_def data0_def word_le_nat_alt)
  from changed_pixel_age_zero [where screen = "uniform 0x010601" and x = 3 and y = 0,
      OF run i c r h] before show ?thesis by simp
qed

section \<open>Masked pixels\<close>

text \<open>
  Claim C9. Every handler (draw and resize, animation tick, capture tick with its
  promotions, pointer poll with its clearing) keeps the invariant that a masked pixel of
  the surface has age 0; so the invariant holds in every state that the program reaches
  from its initial state.
\<close>

theorem stale_mask_has_age_zero:
  "(stale_inv data \<and> step cfg e data = Inr data' \<longrightarrow> stale_inv data') \<and>
   (run cfg es data0 = Inr data'' \<longrightarrow> stale_inv data'')"
  using stale_inv_step_aux [of data cfg e data'] stale_inv_run [OF stale_inv_data0, of cfg es data'']
  by blast

theorem stale_mask_has_age_zero_witness:
  "stale_inv (data0\<lparr>initialized := True, width := 8, height := 1, mask_image := (\<lambda>_ _. 4)\<rparr>) \<and>
   masked (data0\<lparr>initialized := True, width := 8, height := 1, mask_image := (\<lambda>_ _. 4)\<rparr>) 0 2 \<and>
   stale_inv (snd (on_screen_capture_timer default_config (uniform 0x010101)
     (data0\<lparr>initialized := True, width := 8, height := 1, mask_image := (\<lambda>_ _. 4)\<rparr>))) \<and>
   stale_inv (snd (on_screen_capture_timer default_config (uniform 0x010101)
     (data0\<lparr>draw_timeout_ms := 5000, width := 8, height := 1, initialized := True\<rparr>)))"
proof -
  let ?D = "data0\<lparr>initialized := True, width := 8, height := 1, mask_image := (\<lambda>_ _. 4)\<rparr>"
  let ?E = "data0\<lparr>draw_timeout_ms := 5000, width := 8, height := 1, initialized := True\<rparr>"
  have s: "stale_inv ?D" by (simp add: stale_inv_def data0_def)
  have m: "masked ?D 0 2" by (simp add: masked_def a1_pixel_def a1_bit_def bit_numeral_simps)
  have st: "step default_config (ScreenCapture (uniform 0x010101)) ?D =
      Inr (snd (on_screen_capture_timer default_config (uniform 0x010101) ?D))"
    by simp
  have run: "run default_config [Draw 8 1, ScreenCapture (uniform 0x010101)] data0 =
      Inr (snd (on_screen_capture_timer default_config (uniform 0x010101) ?E))"
    by (simp add: on_draw_def data0_def PERIOD_MS_def BAR_PIXEL_INCREMENT_def)
  from stale_mask_has_age_zero [of ?D default_config "ScreenCapture (uniform 0x010101)"
      "snd (on_screen_capture_timer default_config (uniform 0x010101) ?D)"
      "[Draw 8 1, ScreenCapture (uniform 0x010101)]"
      "snd (on_screen_capture_timer default_config (uniform 0x010101) ?E)"]
    s m st run
  show ?thesis by blast
qed


section \<open>Persistence of the mask\<close>







section \<open>The pointer clear\<close>




section \<open>Runs of capture ticks\<close>

lemma run_ticks: "run cfg (map ScreenCapture screens) data = Inr (ticks cfg screens data)"
  by (induction screens arbitrary: data) (simp_all add: ticks_def)

lemma run_append:
  "run cfg (es @ es') data = (case run cfg es data of Inl e \<Rightarrow> Inl e | Inr d \<Rightarrow> run cfg es' d)"
  by (induction es arbitrary: data) (auto split: sum.splits)

lemma tick_last:
  assumes "initialized data" "x < columns data" "y < rows data"
  shows "captures (snd (on_screen_capture_timer cfg screen data))
           (1 - capture_index (snd (on_screen_capture_timer cfg screen data))) y x = screen y x"
  using assms by (simp add: tick_fields paint_def)

lemma ticks_dims:
  "initialized (ticks cfg screens data) = initialized data"
  "columns (ticks cfg screens data) = columns data"
  "rows (ticks cfg screens data) = rows data"
  by (induction screens arbitrary: data) (simp_all add: ticks_def tick_dims)

lemma ticks_pixel:
  assumes "initialized data" "x < columns data" "y < rows data"
  shows "(masked (ticks cfg screens data) y x, pixel_ages (ticks cfg screens data) y x) =
     pixel_ticks cfg (map (\<lambda>screen. screen y x) screens)
       (captures data (1 - capture_index data) y x) (masked data y x, pixel_ages data y x)"
  using assms
proof (induction screens arbitrary: data)
  case Nil
  then show ?case by (simp add: ticks_def)
next
  case (Cons s screens)
  let ?d = "snd (on_screen_capture_timer cfg s data)"
  have d: "initialized ?d" "x < columns ?d" "y < rows ?d"
    using Cons.prems by (simp_all add: tick_dims)
  have t: "ticks cfg (s # screens) data = ticks cfg screens ?d" by (simp add: ticks_def)
  have v: "(masked ?d y x, pixel_ages ?d y x) =
      diff_one cfg (s y x) (captures data (1 - capture_index data) y x)
        (masked data y x, pixel_ages data y x)"
    using tick_pixel [OF Cons.prems(1), of cfg s y x] Cons.prems by simp
  show ?case
    unfolding t Cons.IH [OF d]
    by (simp add: tick_last [OF Cons.prems] v)
qed

lemma pixel_different_same:
  "0 < MIN_CHANGE_THRESHOLD cfg \<Longrightarrow> \<not> pixel_different cfg p p"
  by (simp add: pixel_different_channels)

lemma fresh_100x10:
  "run cfg [Draw 100 10] data0 =
     Inr (data0\<lparr>draw_timeout_ms := 400, width := 100, height := 10, initialized := True\<rparr>)"
  by (simp add: on_draw_def data0_def PERIOD_MS_def BAR_PIXEL_INCREMENT_def)

lemma fresh_100x10_captures:
  "run cfg (Draw 100 10 # map ScreenCapture screens) data0 =
     Inr (ticks cfg screens
       (data0\<lparr>draw_timeout_ms := 400, width := 100, height := 10, initialized := True\<rparr>))"
  using run_append [of cfg "[Draw 100 10]" "map ScreenCapture screens" data0]
  by (simp add: fresh_100x10 run_ticks del: run.simps)

lemma fresh_100x10_pixel:
  assumes "x < 100" "y < 10"
  shows "(masked (ticks cfg screens
            (data0\<lparr>draw_timeout_ms := 400, width := 100, height := 10, initialized := True\<rparr>)) y x,
          pixel_ages (ticks cfg screens
            (data0\<lparr>draw_timeout_ms := 400, width := 100, height := 10, initialized := True\<rparr>)) y x) =
     pixel_ticks cfg (map (\<lambda>screen. screen y x) screens) 0 (False, 0)"
proof -
  let ?D = "data0\<lparr>draw_timeout_ms := 400, width := 100, height := 10, initialized := True\<rparr>"
  have "initialized ?D" "x < columns ?D" "y < rows ?D"
    using assms by (simp_all add: columns_def rows_def)
  from ticks_pixel [OF this, of cfg screens] show ?thesis
    by (simp add: masked_def a1_pixel_def a1_bit_def data0_def)
qed

text \<open>Four identical colours at a pixel of a fresh session, with maximum age 3.\<close>

lemma four_identical:
  assumes "MAX_AGE cfg = 3" "0 < MIN_CHANGE_THRESHOLD cfg"
  shows "pixel_ticks cfg [p, p, p, p] 0 (False, 0) = (True, 0)"
  using assms pixel_different_same [of cfg p]
  by (cases "pixel_different cfg p 0") (simp_all add: diff_one_def word_le_nat_alt)

lemma three_identical:
  assumes "MAX_AGE cfg = 3" "0 < MIN_CHANGE_THRESHOLD cfg"
  shows "pixel_ticks cfg [p, p, p] 0 (False, 0) =
    (if pixel_different cfg p 0 then (False, 2) else (True, 0))"
  using assms pixel_different_same [of cfg p]
  by (cases "pixel_different cfg p 0") (simp_all add: diff_one_def word_le_nat_alt)

lemma pixel_ticks_append:
  "pixel_ticks cfg (cs @ [c]) l st =
     diff_one cfg c (if cs = [] then l else last cs) (pixel_ticks cfg cs l st)"
  by (induction cs arbitrary: l st) auto

section \<open>The scenario of three identical captures\<close>

text \<open>
  Claim C5, as stated, fails: with a surface of 100 by 10 pixels, threshold 2 and maximum
  age 3, a fresh session fed three identical white captures has the pixel \<open>(50, 5)\<close>
  unmasked with age 2 after the third tick, because the first tick compares the capture
  with the zero-filled buffer and classifies the pixel as changed.
\<close>

theorem scenario_three_captures_counterexample:
  "\<not> isl (run \<lparr>MAX_AGE = 3, MIN_CHANGE_THRESHOLD = 2\<rparr>
      [Draw 100 10, ScreenCapture (uniform 0xFFFFFF), ScreenCapture (uniform 0xFFFFFF),
       ScreenCapture (uniform 0xFFFFFF)] data0) \<and>
   \<not> masked (projr (run \<lparr>MAX_AGE = 3, MIN_CHANGE_THRESHOLD = 2\<rparr>
      [Draw 100 10, ScreenCapture (uniform 0xFFFFFF), ScreenCapture (uniform 0xFFFFFF),
       ScreenCapture (uniform 0xFFFFFF)] data0)) 5 50 \<and>
   pixel_ages (projr (run \<lparr>MAX_AGE = 3, MIN_CHANGE_THRESHOLD = 2\<rparr>
      [Draw 100 10, ScreenCapture (uniform 0xFFFFFF), ScreenCapture (uniform 0xFFFFFF),
       ScreenCapture (uniform 0xFFFFFF)] data0)) 5 50 = 2"
proof -
  let ?cfg = "\<lparr>MAX_AGE = 3, MIN_CHANGE_THRESHOLD = 2\<rparr>"
  let ?w = "uniform 0xFFFFFF"
  let ?D = "data0\<lparr>draw_timeout_ms := 400, width := 100, height := 10, initialized := True\<rparr>"
  have r: "run ?cfg [Draw 100 10, ScreenCapture ?w, ScreenCapture ?w, ScreenCapture ?w] data0
      = Inr (ticks ?cfg [?w, ?w, ?w] ?D)"
    using fresh_100x10_captures [of ?cfg "[?w, ?w, ?w]"] by simp
  have d: "pixel_different ?cfg 0xFFFFFF 0"
    by (simp add: pixel_different_channels ex_less_3 channel_simps)
  have "(masked (ticks ?cfg [?w, ?w, ?w] ?D) 5 50, pixel_ages (ticks ?cfg [?w, ?w, ?w] ?D) 5 50)
      = (False, 2)"
    using fresh_100x10_pixel [of 50 5 ?cfg "[?w, ?w, ?w]"] three_identical [of ?cfg "0xFFFFFF"] d
    by (simp add: uniform_def del: pixel_ticks.simps)
  then show ?thesis unfolding r by simp
qed

text \<open>
  Claim C5, amended. With a surface of 100 by 10 pixels, threshold 2 and maximum age 3, in
  a fresh session: after four identical captures every pixel is masked with age 0, and
  after a further capture that differs by 5 in one channel at a second pixel, that second
  pixel has age 0 and the first pixel is still masked. After three identical captures the
  pixel is masked with age 0 exactly when the first tick classified it as unchanged against
  the zero-filled buffer; a further capture that differs by 5 at a second pixel leaves
  that pixel with age 0 and a masked first pixel masked.
\<close>

theorem scenario_100x10:
  assumes "MAX_AGE cfg = 3" and "MIN_CHANGE_THRESHOLD cfg = 2"
    and "x < 100" and "y < 10" and "x' < 100" and "y' < 10"
    and "i < 3" and "\<bar>channel i (d y' x') - channel i (c y' x')\<bar> = 5"
  shows "(\<exists>s4 s5.
            run cfg [Draw 100 10, ScreenCapture c, ScreenCapture c, ScreenCapture c,
                     ScreenCapture c] data0 = Inr s4 \<and>
            masked s4 y x \<and> pixel_ages s4 y x = 0 \<and>
            run cfg [Draw 100 10, ScreenCapture c, ScreenCapture c, ScreenCapture c,
                     ScreenCapture c, ScreenCapture d] data0 = Inr s5 \<and>
            pixel_ages s5 y' x' = 0 \<and> masked s5 y x) \<and>
         (\<exists>s3 s4.
            run cfg [Draw 100 10, ScreenCapture c, ScreenCapture c, ScreenCapture c] data0
              = Inr s3 \<and>
            (masked s3 y x \<and> pixel_ages s3 y x = 0 \<longleftrightarrow> \<not> pixel_different cfg (c y x) 0) \<and>
            run cfg [Draw 100 10, ScreenCapture c, ScreenCapture c, ScreenCapture c,
                     ScreenCapture d] data0 = Inr s4 \<and>
            pixel_ages s4 y' x' = 0 \<and> (masked s3 y x \<longrightarrow> masked s4 y x))"
proof -
  let ?D = "data0\<lparr>draw_timeout_ms := 400, width := 100, height := 10, initialized := True\<rparr>"
  have thr: "0 < MIN_CHANGE_THRESHOLD cfg" using assms(2) by simp
  have diff: "pixel_different cfg (d y' x') (c y' x')"
    using assms(2,7,8) by (auto simp: pixel_different_channels)
  have r: "run cfg (Draw 100 10 # map ScreenCapture ss) data0 = Inr (ticks cfg ss ?D)" for ss
    by (rule fresh_100x10_captures)
  have p: "(masked (ticks cfg ss ?D) b a, pixel_ages (ticks cfg ss ?D) b a) =
      pixel_ticks cfg (map (\<lambda>screen. screen b a) ss) 0 (False, 0)"
    if "a < 100" "b < 10" for ss a b
    using that by (rule fresh_100x10_pixel)
  have four: "pixel_ticks cfg [q, q, q, q] 0 (False, 0) = (True, 0)" for q
    using assms(1) thr by (rule four_identical)
  have three: "pixel_ticks cfg [q, q, q] 0 (False, 0) =
      (if pixel_different cfg q 0 then (False, 2) else (True, 0))" for q
    using assms(1) thr by (rule three_identical)
  have five: "pixel_ticks cfg [q, q, q, q, q'] 0 (False, 0) = (True, 0)" for q q'
    using pixel_ticks_append [of cfg "[q, q, q, q]" q' 0 "(False, 0)"] four [of q]
    by (simp add: diff_one_def del: pixel_ticks.simps)
  have three_then: "pixel_ticks cfg [q, q, q, q'] 0 (False, 0) =
      (if pixel_different cfg q 0 then (if pixel_different cfg q' q then (False, 0) else (True, 0))
       else (True, 0))" for q q'
    using pixel_ticks_append [of cfg "[q, q, q]" q' 0 "(False, 0)"] three [of q] assms(1)
    by (simp add: diff_one_def word_le_nat_alt del: pixel_ticks.simps)
  have a4: "masked (ticks cfg [c, c, c, c] ?D) y x \<and> pixel_ages (ticks cfg [c, c, c, c] ?D) y x = 0"
    using p [OF assms(3,4), of "[c, c, c, c]"] four [of "c y x"] by simp
  have a5: "pixel_ages (ticks cfg [c, c, c, c, d] ?D) y' x' = 0 \<and>
      masked (ticks cfg [c, c, c, c, d] ?D) y x"
    using p [OF assms(5,6), of "[c, c, c, c, d]"] p [OF assms(3,4), of "[c, c, c, c, d]"]
      five [of "c y' x'" "d y' x'"] five [of "c y x" "d y x"]
    by simp
  have b3: "masked (ticks cfg [c, c, c] ?D) y x \<and> pixel_ages (ticks cfg [c, c, c] ?D) y x = 0
      \<longleftrightarrow> \<not> pixel_different cfg (c y x) 0"
    using p [OF assms(3,4), of "[c, c, c]"] three [of "c y x"] by (auto split: if_splits)
  have b4: "pixel_ages (ticks cfg [c, c, c, d] ?D) y' x' = 0"
    using p [OF assms(5,6), of "[c, c, c, d]"] three_then [of "c y' x'" "d y' x'"] diff
    by (auto split: if_splits)
  have b4': "masked (ticks cfg [c, c, c] ?D) y x \<longrightarrow> masked (ticks cfg [c, c, c, d] ?D) y x"
    using p [OF assms(3,4), of "[c, c, c]"] p [OF assms(3,4), of "[c, c, c, d]"]
      three [of "c y x"] three_then [of "c y x" "d y x"]
    by (auto split: if_splits)
  show ?thesis
  proof (intro conjI)
    show "\<exists>s4 s5.
        run cfg [Draw 100 10, ScreenCapture c, ScreenCapture c, ScreenCapture c,
                 ScreenCapture c] data0 = Inr s4 \<and>
        masked s4 y x \<and> pixel_ages s4 y x = 0 \<and>
        run cfg [Draw 100 10, ScreenCapture c, ScreenCapture c, ScreenCapture c,
                 ScreenCapture c, ScreenCapture d] data0 = Inr s5 \<and>
        pixel_ages s5 y' x' = 0 \<and> masked s5 y x"
      using r [of "[c, c, c, c]"] r [of "[c, c, c, c, d]"] a4 a5
      by (intro exI [of _ "ticks cfg [c, c, c, c] ?D"] exI [of _ "ticks cfg [c, c, c, c, d] ?D"])
        simp
    show "\<exists>s3 s4.
        run cfg [Draw 100 10, ScreenCapture c, ScreenCapture c, ScreenCapture c] data0
          = Inr s3 \<and>
        (masked s3 y x \<and> pixel_ages s3 y x = 0 \<longleftrightarrow> \<not> pixel_different cfg (c y x) 0) \<and>
        run cfg [Draw 100 10, ScreenCapture c, ScreenCapture c, ScreenCapture c,
                 ScreenCapture d] data0 = Inr s4 \<and>
        pixel_ages s4 y' x' = 0 \<and> (masked s3 y x \<longrightarrow> masked s4 y x)"
      using r [of "[c, c, c]"] r [of "[c, c, c, d]"] b3 b4 b4'
      by (intro exI [of _ "ticks cfg [c, c, c] ?D"] exI [of _ "ticks cfg [c, c, c, d] ?D"])
        simp
  qed
qed

theorem scenario_100x10_witness:
  "\<bar>channel 1 (((uniform 0)(3 := (uniform 0 3)(7 := 0x000500))) 3 7) - channel 1 (uniform 0 3 7)\<bar> = 5 \<and>
   \<not> pixel_different \<lparr>MAX_AGE = 3, MIN_CHANGE_THRESHOLD = 2\<rparr> (uniform 0 5 50) 0 \<and>
   masked (projr (run \<lparr>MAX_AGE = 3, MIN_CHANGE_THRESHOLD = 2\<rparr>
     [Draw 100 10, ScreenCapture (uniform 0), ScreenCapture (uniform 0),
      ScreenCapture (uniform 0)] data0)) 5 50 \<and>
   masked (projr (run \<lparr>MAX_AGE = 3, MIN_CHANGE_THRESHOLD = 2\<rparr>
     [Draw 100 10, ScreenCapture (uniform 0), ScreenCapture (uniform 0),
      ScreenCapture (uniform 0), ScreenCapture (uniform 0)] data0)) 5 50 \<and>
   pixel_ages (projr (run \<lparr>MAX_AGE = 3, MIN_CHANGE_THRESHOLD = 2\<rparr>
     [Draw 100 10, ScreenCapture (uniform 0), ScreenCapture (uniform 0),
      ScreenCapture (uniform 0), ScreenCapture (uniform 0),
      ScreenCapture ((uniform 0)(3 := (uniform 0 3)(7 := 0x000500)))] data0)) 3 7 = 0"
proof -
  let ?cfg = "\<lparr>MAX_AGE = 3, MIN_CHANGE_THRESHOLD = 2\<rparr>"
  let ?c = "uniform 0 :: 32 word image"
  let ?d = "(uniform 0)(3 := (uniform 0 3)(7 := 0x000500)) :: 32 word image"
  have h: "\<bar>channel 1 (?d 3 7) - channel 1 (?c 3 7)\<bar> = 5"
    by (simp add: channel_simps uniform_def)
  have dark: "\<not> pixel_different ?cfg (?c 5 50) 0"
    by (simp add: pixel_different_channels uniform_def)
  from scenario_100x10 [of ?cfg 50 5 7 3 1 ?d ?c] h
  obtain s4 s5 s3 where
    "run ?cfg [Draw 100 10, ScreenCapture ?c, ScreenCapture ?c, ScreenCapture ?c,
               ScreenCapture ?c] data0 = Inr s4"
    "masked s4 5 50"
    "run ?cfg [Draw 100 10, ScreenCapture ?c, ScreenCapture ?c, ScreenCapture ?c,
               ScreenCapture ?c, ScreenCapture ?d] data0 = Inr s5"
    "pixel_ages s5 3 7 = 0"
    "run ?cfg [Draw 100 10, ScreenCapture ?c, ScreenCapture ?c, ScreenCapture ?c] data0
       = Inr s3"
    "masked s3 5 50 \<and> pixel_ages s3 5 50 = 0 \<longleftrightarrow> \<not> pixel_different ?cfg (?c 5 50) 0"
    by (simp del: run.simps) blast
  with h dark show ?thesis by (simp del: run.simps)
qed

section \<open>Resize\<close>

lemma uint_resize:
  assumes "0 < sint (ow :: 32 word)" "0 < sint (w :: 32 word)"
  shows "uint (b * w div ow) = (uint b * sint w) mod 2 ^ 32 div sint ow"
proof -
  have "uint w = sint w" "uint ow = sint ow"
    using assms by (simp_all add: sint_nonneg_uint)
  then show ?thesis
    by (simp add: uint_div uint_word_ariths)
qed

text \<open>
  Claim C6, as stated, fails: a session of width 1920 whose bar is at 10 and that is
  resized to width 1100 has its bar at 5, while \<open>10 \<times> 1100 / 1920\<close> rounds to 6.
\<close>

theorem resize_round_counterexample:
  "\<not> isl (run default_config [Draw 1920 1080, DrawTimer, Draw 1100 1080] data0) \<and>
   uint (bar_x (projr (run default_config [Draw 1920 1080, DrawTimer] data0))) = 10 \<and>
   width (projr (run default_config [Draw 1920 1080, DrawTimer] data0)) = 1920 \<and>
   uint (bar_x (projr (run default_config [Draw 1920 1080, DrawTimer, Draw 1100 1080] data0))) = 5 \<and>
   round (10 * 1100 / 1920 :: real) = 6"
  by (simp add: on_draw_def on_draw_timer_def data0_def PERIOD_MS_def BAR_PIXEL_INCREMENT_def
      round_def)

text \<open>
  Claim C6, amended. On a dimension change of an active session with positive widths, the
  session is re-initialised at the new dimensions with all ages 0 and all mask bits unset
  (in both mask surfaces), and the new bar position is the unsigned 32-bit product of the
  old position and the new width, divided by the old width with truncation: the floor of
  \<open>old_pos \<times> new_width / old_width\<close> whenever the product is below \<open>2\<^sup>3\<^sup>2\<close>.
\<close>

theorem resize_resets:
  assumes "initialized data" and "0 < sint (width data)" and "0 < sint w" and "h \<noteq> 0"
    and "width data \<noteq> w \<or> height data \<noteq> h"
  shows "\<exists>data'. on_draw w h data = Inr (True, data') \<and>
           initialized data' \<and> width data' = w \<and> height data' = h \<and>
           (\<forall>y x. pixel_ages data' y x = 0 \<and> \<not> masked data' y x \<and> mask_surface data' y x = 0) \<and>
           uint (bar_x data') = (uint (bar_x data) * sint w) mod 2 ^ 32 div sint (width data) \<and>
           (uint (bar_x data) * sint w < 2 ^ 32 \<longrightarrow>
              uint (bar_x data') =
                \<lfloor>real_of_int (uint (bar_x data)) * real_of_int (sint w)
                   / real_of_int (sint (width data))\<rfloor>)"
proof -
  from assms(2,3) have nz: "width data \<noteq> 0" "w \<noteq> 0" by auto
  let ?b = "bar_x data * w div width data"
  have b: "uint ?b = (uint (bar_x data) * sint w) mod 2 ^ 32 div sint (width data)"
    using assms(2,3) by (rule uint_resize)
  have fl: "uint ?b = \<lfloor>real_of_int (uint (bar_x data)) * real_of_int (sint w)
                   / real_of_int (sint (width data))\<rfloor>"
    if "uint (bar_x data) * sint w < 2 ^ 32"
  proof -
    have "0 \<le> uint (bar_x data) * sint w" using assms(3) by simp
    with that have "(uint (bar_x data) * sint w) mod 2 ^ 32 = uint (bar_x data) * sint w"
      by simp
    with b have "uint ?b = uint (bar_x data) * sint w div sint (width data)" by simp
    also have "\<dots> = \<lfloor>real_of_int (uint (bar_x data) * sint w) / real_of_int (sint (width data))\<rfloor>"
      by (simp only: floor_divide_of_int_eq)
    finally show ?thesis by simp
  qed
  let ?d = "data\<lparr>
           draw_timeout_ms := PERIOD_MS * BAR_PIXEL_INCREMENT div w,
           mask_surface := (\<lambda>_ _. 0),
           mask_image := (\<lambda>_ _. 0),
           pixel_ages := (\<lambda>_ _. 0),
           captures := (\<lambda>_ _ _. 0),
           bar_x := ?b,
           width := w,
           height := h,
           initialized := True\<rparr>"
  have "on_draw w h data = Inr (True, ?d)"
    using assms(1,4,5) nz by (auto simp: on_draw_def)
  moreover have "initialized ?d \<and> width ?d = w \<and> height ?d = h \<and>
    (\<forall>y x. pixel_ages ?d y x = 0 \<and> \<not> masked ?d y x \<and> mask_surface ?d y x = 0)"
    by (simp add: masked_def a1_pixel_def a1_bit_def)
  moreover have "bar_x ?d = ?b" by simp
  ultimately show ?thesis using b fl by (intro exI [of _ ?d]) (simp del: of_int_mult)
qed

theorem resize_resets_witness:
  "initialized (data0\<lparr>initialized := True, width := 1920, height := 1080, bar_x := 10,
      pixel_ages := (\<lambda>_ _. 9), mask_image := (\<lambda>_ _. 255)\<rparr>) \<and>
   (\<exists>data'. on_draw 1100 1080 (data0\<lparr>initialized := True, width := 1920, height := 1080,
        bar_x := 10, pixel_ages := (\<lambda>_ _. 9), mask_image := (\<lambda>_ _. 255)\<rparr>) = Inr (True, data') \<and>
      width data' = 1100 \<and> pixel_ages data' 3 7 = 0 \<and> \<not> masked data' 3 7 \<and>
      uint (bar_x data') = 5)"
proof -
  let ?D = "data0\<lparr>initialized := True, width := 1920, height := 1080, bar_x := 10,
      pixel_ages := (\<lambda>_ _. 9), mask_image := (\<lambda>_ _. 255)\<rparr>"
  have a: "initialized ?D" "0 < sint (width ?D)" "0 < sint (1100 :: 32 word)"
    "(1080 :: 32 word) \<noteq> 0" "width ?D \<noteq> 1100 \<or> height ?D \<noteq> 1080"
    by simp_all
  from resize_resets [OF a] obtain data' where
    "on_draw 1100 1080 ?D = Inr (True, data')" "width data' = 1100"
    "pixel_ages data' 3 7 = 0" "\<not> masked data' 3 7"
    "uint (bar_x data') = (uint (bar_x ?D) * sint (1100 :: 32 word)) mod 2 ^ 32 div sint (width ?D)"
    by blast
  then show ?thesis by simp
qed

end
